theory Spec2Isabelle
  imports Main "HOL-Library.Sublist"
begin

section \<open>JavaScript values the observer examples rely on\<close>

text \<open>
  An exception is a value: \<open>TypeError\<close> is raised by the engine (calling or reading
  through \<open>undefined\<close>, iterating a non-iterable), \<open>Thrown\<close> stands for whatever a
  subscriber callback throws.
\<close>

datatype error = TypeError | Thrown string

text \<open>What the broker operations return: \<open>this\<close>, a boolean, a string, a number, or nothing.\<close>

datatype returned = JThis | JBool bool | JString string | JNumber int | JUndefined

subsection \<open>Numbers used as counters\<close>

text \<open>
  \<open>subUid\<close> (example-1.js) and \<open>id\<close> (part_002) are JavaScript numbers, that is IEEE
  doubles, which start at -1 or 0 and only ever change by \<open>++\<close>. A double holds every
  integer up to \<open>2 ^ 53\<close> exactly; \<open>2 ^ 53 + 1\<close> is not representable and rounds back
  to \<open>2 ^ 53\<close>, so there \<open>++\<close> stops advancing.
\<close>

definition incr :: "int \<Rightarrow> int" where
  "incr n = (if n < 2 ^ 53 then n + 1 else n)"

definition digit :: "nat \<Rightarrow> char" where
  "digit d = ''0123456789'' ! d"

fun digits :: "nat \<Rightarrow> string" where
  "digits n = (if n < 10 then [digit n] else digits (n div 10) @ [digit (n mod 10)])"

declare digits.simps [simp del]

text \<open>\<open>Number.prototype.toString\<close> on an integer below \<open>10 ^ 21\<close>: plain decimal digits.\<close>

definition toString :: "int \<Rightarrow> string" where
  "toString n = (if n < 0 then CHR ''-'' # digits (nat (- n)) else digits (nat n))"

subsection \<open>Property keys of a plain object\<close>

text \<open>
  \<open>for (var m in topics)\<close> enumerates the own keys of \<open>topics\<close>: first the keys that
  are array indices (canonical decimal strings below \<open>2 ^ 32 - 1\<close>) in ascending
  numeric order, then all other strings in the order they were created. An object
  is an association list kept in that enumeration order.
\<close>

definition digit_value :: "char \<Rightarrow> nat" where
  "digit_value c = (of_char c :: nat) - 48"

definition array_index :: "string \<Rightarrow> nat option" where
  "array_index s =
     (let n = foldl (\<lambda>acc c. 10 * acc + digit_value c) 0 s
      in if s \<noteq> [] \<and> digits n = s \<and> n < 2 ^ 32 - 1 then Some n else None)"

definition enumerated_before :: "string \<Rightarrow> string \<Rightarrow> bool" where
  "enumerated_before k k' =
     (case array_index k of
        None \<Rightarrow> False
      | Some n \<Rightarrow> (case array_index k' of None \<Rightarrow> True | Some m \<Rightarrow> n < m))"

text \<open>\<open>obj[k] = v\<close> for a key \<open>k\<close> the object does not own yet.\<close>

fun create_property :: "string \<Rightarrow> 'v \<Rightarrow> (string \<times> 'v) list \<Rightarrow> (string \<times> 'v) list" where
  "create_property k v [] = [(k, v)]"
| "create_property k v ((k', v') # al) =
     (if enumerated_before k k' then (k, v) # (k', v') # al
      else (k', v') # create_property k v al)"

text \<open>An in-place change of the value stored under a key the object owns.\<close>

fun update_property :: "string \<Rightarrow> 'v \<Rightarrow> (string \<times> 'v) list \<Rightarrow> (string \<times> 'v) list" where
  "update_property k v [] = []"
| "update_property k v ((k', v') # al) =
     (if k' = k then (k', v) # al else (k', v') # update_property k v al)"

text \<open>
  Every plain object inherits the properties of \<open>Object.prototype\<close>, so \<open>topics[k]\<close>
  and \<open>k in container\<close> also see these names. Each is listed with the number of
  iterations \<open>while (len--)\<close> makes when \<open>len\<close> is the inherited value's \<open>length\<close>:
  the arity of a function, and none for \<open>__proto__\<close>, whose value has no \<open>length\<close>
  (\<open>undefined--\<close> is \<open>NaN\<close>, which is falsy).
\<close>

definition object_prototype :: "(string \<times> nat) list" where
  "object_prototype =
     [(''constructor'', 1), (''hasOwnProperty'', 1), (''isPrototypeOf'', 1),
      (''propertyIsEnumerable'', 1), (''toLocaleString'', 0), (''toString'', 0),
      (''valueOf'', 0), (''__proto__'', 0), (''__defineGetter__'', 2),
      (''__defineSetter__'', 2), (''__lookupGetter__'', 1), (''__lookupSetter__'', 1)]"

text \<open>
  An array is a list; the bound an engine puts on the length of an array is not
  part of the model. \<open>Array.prototype.splice(start, 1)\<close>: a negative \<open>start\<close> counts
  from the end.
\<close>

definition splice1 :: "int \<Rightarrow> 'a list \<Rightarrow> 'a list" where
  "splice1 start xs =
     (let len = int (length xs);
          k = nat (if start < 0 then max (len + start) 0 else min start len)
      in take k xs @ drop (Suc k) xs)"

section \<open>The topic broker \<open>pubsub\<close> (observer-pattern/example-1.js)\<close>

record 'f subscription =
  token :: string
  func :: 'f

text \<open>The closure variables \<open>topics\<close> and \<open>subUid\<close>.\<close>

record 'f pubsub =
  topics :: "(string \<times> 'f subscription list) list"
  subUid :: int

definition pubsub_init :: "'f pubsub" where
  "pubsub_init = \<lparr>topics = [], subUid = - 1\<rparr>"

text \<open>The value of \<open>topics[topic]\<close>: an own array, an inherited property, or \<open>undefined\<close>.\<close>

datatype 'f slot = Absent | Own "'f subscription list" | Inherited nat

definition lookup :: "'f pubsub \<Rightarrow> string \<Rightarrow> 'f slot" where
  "lookup st topic =
     (case map_of (topics st) topic of
        Some subs \<Rightarrow> Own subs
      | None \<Rightarrow> (case map_of object_prototype topic of
                   Some n \<Rightarrow> Inherited n
                 | None \<Rightarrow> Absent))"

text \<open>
  \<open>subscribe\<close>: the entry is created only when \<open>topics[topic]\<close> is falsy; the counter is
  advanced before \<open>push\<close> is looked up, so it advances even when the call then fails
  because \<open>topics[topic]\<close> is an inherited property without \<open>push\<close>.
\<close>

definition pubsub_subscribe ::
  "string \<Rightarrow> 'f \<Rightarrow> 'f pubsub \<Rightarrow> (error + returned) \<times> 'f pubsub" where
  "pubsub_subscribe topic f st =
     (let st1 = (case lookup st topic of
                   Absent \<Rightarrow> st\<lparr>topics := create_property topic [] (topics st)\<rparr>
                 | _ \<Rightarrow> st);
          uid = incr (subUid st1);
          tok = toString uid;
          st2 = st1\<lparr>subUid := uid\<rparr>
      in case lookup st2 topic of
           Own subs \<Rightarrow>
             (Inr (JString tok),
              st2\<lparr>topics :=
                    update_property topic (subs @ [\<lparr>token = tok, func = f\<rparr>]) (topics st2)\<rparr>)
         | _ \<Rightarrow> (Inl TypeError, st2))"

text \<open>
  A subscriber callback runs with the broker in some state and leaves it in some
  state, returning normally (\<open>None\<close>) or throwing. The closure variables are
  private, so a real callback changes them only through the three operations.
\<close>

type_synonym ('f, 'a) callbacks =
  "'f \<Rightarrow> string \<Rightarrow> 'a \<Rightarrow> 'f pubsub \<Rightarrow> error option \<times> 'f pubsub"

type_synonym ('f, 'a) deliveries = "('f \<times> string \<times> 'a) list"

text \<open>\<open>subscribers[len]\<close>: \<open>undefined\<close> past the end of the array and on a non-array.\<close>

definition element :: "'f slot \<Rightarrow> nat \<Rightarrow> 'f subscription option" where
  "element s i =
     (case s of Own subs \<Rightarrow> (if i < length subs then Some (subs ! i) else None)
              | _ \<Rightarrow> None)"

text \<open>
  \<open>while (len--) { subscribers[len].func(topic, args); }\<close>. \<open>subscribers\<close> is the array
  stored under \<open>topics[topic]\<close>; that binding is made once and the array is only ever
  changed in place, so each round reads the current content of the entry. The list
  of deliveries records every call the loop makes, in order.
\<close>

fun publish_loop ::
  "('f, 'a) callbacks \<Rightarrow> string \<Rightarrow> 'a \<Rightarrow> nat \<Rightarrow> 'f pubsub \<Rightarrow> ('f, 'a) deliveries
     \<Rightarrow> error option \<times> 'f pubsub \<times> ('f, 'a) deliveries" where
  "publish_loop call topic args 0 st tr = (None, st, tr)"
| "publish_loop call topic args (Suc len) st tr =
     (case element (lookup st topic) len of
        None \<Rightarrow> (Some TypeError, st, tr)
      | Some s \<Rightarrow>
          (case call (func s) topic args st of
             (Some e, st') \<Rightarrow> (Some e, st', tr @ [(func s, topic, args)])
           | (None, st') \<Rightarrow>
               publish_loop call topic args len st' (tr @ [(func s, topic, args)])))"

definition pubsub_publish ::
  "('f, 'a) callbacks \<Rightarrow> string \<Rightarrow> 'a \<Rightarrow> 'f pubsub
     \<Rightarrow> (error + returned) \<times> 'f pubsub \<times> ('f, 'a) deliveries" where
  "pubsub_publish call topic args st =
     (case lookup st topic of
        Absent \<Rightarrow> (Inr (JBool False), st, [])
      | slot \<Rightarrow>
          (let len = (case slot of Own subs \<Rightarrow> length subs | Inherited n \<Rightarrow> n | Absent \<Rightarrow> 0)
           in case publish_loop call topic args len st [] of
                (None, st', tr) \<Rightarrow> (Inr JThis, st', tr)
              | (Some e, st', tr) \<Rightarrow> (Inl e, st', tr)))"

text \<open>
  \<open>unsubscribe\<close>: the inner loop looks for the first entry of one topic whose token
  is \<open>token\<close>; the outer loop visits the topics in enumeration order and stops at the
  first topic that has one.
\<close>

fun find_token :: "string \<Rightarrow> 'f subscription list \<Rightarrow> nat option" where
  "find_token tok [] = None"
| "find_token tok (s # subs) =
     (if token s = tok then Some 0 else map_option Suc (find_token tok subs))"

fun unsubscribe_scan ::
  "string \<Rightarrow> (string \<times> 'f subscription list) list
     \<Rightarrow> (string \<times> 'f subscription list) list option" where
  "unsubscribe_scan tok [] = None"
| "unsubscribe_scan tok ((m, subs) # rest) =
     (case find_token tok subs of
        Some i \<Rightarrow> Some ((m, splice1 (int i) subs) # rest)
      | None \<Rightarrow> map_option ((#) (m, subs)) (unsubscribe_scan tok rest))"

definition pubsub_unsubscribe :: "string \<Rightarrow> 'f pubsub \<Rightarrow> returned \<times> 'f pubsub" where
  "pubsub_unsubscribe tok st =
     (case unsubscribe_scan tok (topics st) of
        Some ts \<Rightarrow> (JString tok, st\<lparr>topics := ts\<rparr>)
      | None \<Rightarrow> (JThis, st))"

section \<open>The observer list and its Subject (observer-pattern/example-1.js)\<close>

text \<open>
  \<open>ObserverList\<close> wraps one array, \<open>observerList\<close>; observers are object references,
  compared by identity. \<open>add\<close> returns what \<open>push\<close> returns, the new length.
\<close>

definition ObserverList_add :: "'o \<Rightarrow> 'o list \<Rightarrow> int \<times> 'o list" where
  "ObserverList_add obj observerList = (int (length observerList) + 1, observerList @ [obj])"

definition ObserverList_count :: "'o list \<Rightarrow> int" where
  "ObserverList_count observerList = int (length observerList)"

text \<open>\<open>get\<close> returns \<open>undefined\<close> (here \<open>None\<close>) outside the bounds.\<close>

definition ObserverList_get :: "int \<Rightarrow> 'o list \<Rightarrow> 'o option" where
  "ObserverList_get index observerList =
     (if index > - 1 \<and> index < int (length observerList)
      then Some (observerList ! nat index) else None)"

function ObserverList_indexOf :: "'o \<Rightarrow> int \<Rightarrow> 'o list \<Rightarrow> int" where
  "ObserverList_indexOf obj i observerList =
     (if i < int (length observerList)
      then (if 0 \<le> i \<and> observerList ! nat i = obj then i
            else ObserverList_indexOf obj (i + 1) observerList)
      else - 1)"
  by pat_completeness auto
termination
  by (relation "measure (\<lambda>(obj, i, observerList). nat (int (length observerList) - i))") auto

declare ObserverList_indexOf.simps [simp del]

definition ObserverList_removeAt :: "int \<Rightarrow> 'o list \<Rightarrow> 'o list" where
  "ObserverList_removeAt index observerList = splice1 index observerList"

record 'o Subject =
  observers :: "'o list"

definition Subject_init :: "'o Subject" where
  "Subject_init = \<lparr>observers = []\<rparr>"

definition Subject_addObserver :: "'o \<Rightarrow> 'o Subject \<Rightarrow> 'o Subject" where
  "Subject_addObserver observer s = s\<lparr>observers := snd (ObserverList_add observer (observers s))\<rparr>"

definition Subject_removeObserver :: "'o \<Rightarrow> 'o Subject \<Rightarrow> 'o Subject" where
  "Subject_removeObserver observer s =
     s\<lparr>observers :=
         ObserverList_removeAt (ObserverList_indexOf observer 0 (observers s)) (observers s)\<rparr>"

text \<open>
  \<open>update\<close> gives what each observer's \<open>update(context)\<close> does to the Subject, and
  whether it throws; an observer without an \<open>update\<close> method is one whose call is a
  \<open>TypeError\<close>. \<open>notify\<close> reads the count once and then, each round, reads
  \<open>this.observers\<close> afresh through the bounds-checked \<open>get\<close>.
\<close>

type_synonym ('o, 'c) updates = "'o \<Rightarrow> 'c \<Rightarrow> 'o Subject \<Rightarrow> error option \<times> 'o Subject"

function notify_loop ::
  "('o, 'c) updates \<Rightarrow> 'c \<Rightarrow> nat \<Rightarrow> nat \<Rightarrow> 'o Subject \<Rightarrow> ('o \<times> 'c) list
     \<Rightarrow> error option \<times> 'o Subject \<times> ('o \<times> 'c) list" where
  "notify_loop update ctx observerCount i s tr =
     (if i < observerCount then
        (case ObserverList_get (int i) (observers s) of
           None \<Rightarrow> (Some TypeError, s, tr)
         | Some ob \<Rightarrow>
             (case update ob ctx s of
                (Some e, s') \<Rightarrow> (Some e, s', tr @ [(ob, ctx)])
              | (None, s') \<Rightarrow>
                  notify_loop update ctx observerCount (Suc i) s' (tr @ [(ob, ctx)])))
      else (None, s, tr))"
  by pat_completeness auto
termination
  by (relation "measure (\<lambda>(update, ctx, observerCount, i, s, tr). observerCount - i)") auto

declare notify_loop.simps [simp del]

definition Subject_notify ::
  "('o, 'c) updates \<Rightarrow> 'c \<Rightarrow> 'o Subject \<Rightarrow> error option \<times> 'o Subject \<times> ('o \<times> 'c) list" where
  "Subject_notify update ctx s =
     notify_loop update ctx (nat (ObserverList_count (observers s))) 0 s []"

section \<open>The single-subject \<open>Click\<close> (observer-pattern/example-3.js)\<close>

text \<open>
  \<open>subscribe\<close> pushes whatever it is given, so a handler slot holds any value; only
  a function can be called, and \<open>filter\<close> keeps an element when its callback returns
  a truthy value.
\<close>

datatype 'f jsvalue = Function 'f | Undefined | Null | Boolean bool | Object nat

fun truthy :: "'f jsvalue \<Rightarrow> bool" where
  "truthy (Function f) = True"
| "truthy Undefined = False"
| "truthy Null = False"
| "truthy (Boolean b) = b"
| "truthy (Object a) = True"

record 'f Click =
  handlers :: "'f jsvalue list"

definition Click_init :: "'f Click" where
  "Click_init = \<lparr>handlers = []\<rparr>"

definition Click_subscribe :: "'f jsvalue \<Rightarrow> 'f Click \<Rightarrow> 'f Click" where
  "Click_subscribe fn c = c\<lparr>handlers := handlers c @ [fn]\<rparr>"

definition Click_unsubscribe :: "'f jsvalue \<Rightarrow> 'f Click \<Rightarrow> 'f Click" where
  "Click_unsubscribe fn c =
     c\<lparr>handlers := filter (\<lambda>item. truthy (if item \<noteq> fn then item else Undefined)) (handlers c)\<rparr>"

text \<open>\<open>thisObj || window || null\<close>, in a browser, where \<open>window\<close> is an object.\<close>

datatype 's scope = Scope 's | Window

definition scope_of :: "'s option \<Rightarrow> 's scope" where
  "scope_of thisObj = (case thisObj of Some t \<Rightarrow> Scope t | None \<Rightarrow> Window)"

type_synonym ('f, 's, 'a) handler_calls =
  "'f \<Rightarrow> 's scope \<Rightarrow> 'a \<Rightarrow> 'f Click \<Rightarrow> error option \<times> 'f Click"

text \<open>
  \<open>forEach\<close> fixes the length when it starts and walks the array that
  \<open>this.handlers\<close> named at that moment. A handler reaches the Click through
  \<open>subscribe\<close>, which appends past that length, and \<open>unsubscribe\<close>, which binds
  \<open>this.handlers\<close> to a new array and leaves the walked one alone: the elements
  visited are those of the list at the start.
\<close>

fun fire_each ::
  "('f, 's, 'a) handler_calls \<Rightarrow> 's scope \<Rightarrow> 'a \<Rightarrow> 'f jsvalue list \<Rightarrow> 'f Click
     \<Rightarrow> ('f \<times> 's scope \<times> 'a) list \<Rightarrow> error option \<times> 'f Click \<times> ('f \<times> 's scope \<times> 'a) list" where
  "fire_each call scope ev [] c tr = (None, c, tr)"
| "fire_each call scope ev (item # rest) c tr =
     (case item of
        Function f \<Rightarrow>
          (case call f scope ev c of
             (Some e, c') \<Rightarrow> (Some e, c', tr @ [(f, scope, ev)])
           | (None, c') \<Rightarrow> fire_each call scope ev rest c' (tr @ [(f, scope, ev)]))
      | _ \<Rightarrow> (Some TypeError, c, tr))"

definition Click_fire ::
  "('f, 's, 'a) handler_calls \<Rightarrow> 'a \<Rightarrow> 's option \<Rightarrow> 'f Click
     \<Rightarrow> error option \<times> 'f Click \<times> ('f \<times> 's scope \<times> 'a) list" where
  "Click_fire call ev thisObj c = fire_each call (scope_of thisObj) ev (handlers c) c []"

section \<open>The \<open>publisherSubscriber\<close> container (unnamed/part_002)\<close>

text \<open>
  The topics are properties of the container itself, next to its three methods;
  \<open>id\<close> is the closure's counter. The names \<open>id'\<close> and \<open>id_var\<close> stand for the
  subscriber field \<open>id\<close> and the variable \<open>id\<close>.
\<close>

record 'f subscriber =
  id' :: int
  callback :: 'f

record 'f container =
  topic_arrays :: "(string \<times> 'f subscriber list) list"
  id_var :: int

definition container_init :: "'f container" where
  "container_init = \<lparr>topic_arrays = [], id_var = 0\<rparr>"

datatype 'f member = NoProperty | TopicArray "'f subscriber list" | NotAnArray

definition container_member :: "'f container \<Rightarrow> string \<Rightarrow> 'f member" where
  "container_member c topic =
     (case map_of (topic_arrays c) topic of
        Some subs \<Rightarrow> TopicArray subs
      | None \<Rightarrow>
          (if topic \<in> set [''subscribe'', ''unsubscribe'', ''publish'']
              \<or> map_of object_prototype topic \<noteq> None
           then NotAnArray else NoProperty))"

definition container_subscribe ::
  "string \<Rightarrow> 'f \<Rightarrow> 'f container \<Rightarrow> (error + returned) \<times> 'f container" where
  "container_subscribe topic f c =
     (let c1 = (case container_member c topic of
                  NoProperty \<Rightarrow> c\<lparr>topic_arrays := create_property topic [] (topic_arrays c)\<rparr>
                | _ \<Rightarrow> c);
          n = incr (id_var c1);
          c2 = c1\<lparr>id_var := n\<rparr>
      in case container_member c2 topic of
           TopicArray subs \<Rightarrow>
             (Inr (JNumber n),
              c2\<lparr>topic_arrays :=
                    update_property topic (subs @ [\<lparr>id' = n, callback = f\<rparr>]) (topic_arrays c2)\<rparr>)
         | _ \<Rightarrow> (Inl TypeError, c2))"

definition container_unsubscribe ::
  "string \<Rightarrow> int \<Rightarrow> 'f container \<Rightarrow> (error + returned) \<times> 'f container" where
  "container_unsubscribe topic n c =
     (case container_member c topic of
        TopicArray subs \<Rightarrow>
          (Inr JUndefined,
           c\<lparr>topic_arrays :=
                update_property topic (filter (\<lambda>s. id' s \<noteq> n) subs) (topic_arrays c)\<rparr>)
      | _ \<Rightarrow> (Inl TypeError, c))"

text \<open>
  \<open>for (var subscriber of container[topic]) subscriber.callback(data)\<close>, for
  callbacks that do not call back into the container: each either returns or
  throws. Iterating \<open>undefined\<close> or a function is a \<open>TypeError\<close>.
\<close>

fun container_each :: "('f \<Rightarrow> 'a \<Rightarrow> error option) \<Rightarrow> 'a \<Rightarrow> 'f subscriber list
     \<Rightarrow> ('f \<times> 'a) list \<Rightarrow> error option \<times> ('f \<times> 'a) list" where
  "container_each call data [] tr = (None, tr)"
| "container_each call data (s # rest) tr =
     (case call (callback s) data of
        Some e \<Rightarrow> (Some e, tr @ [(callback s, data)])
      | None \<Rightarrow> container_each call data rest (tr @ [(callback s, data)]))"

definition container_publish ::
  "('f \<Rightarrow> 'a \<Rightarrow> error option) \<Rightarrow> string \<Rightarrow> 'a \<Rightarrow> 'f container
     \<Rightarrow> (error + returned) \<times> ('f \<times> 'a) list" where
  "container_publish call topic data c =
     (case container_member c topic of
        TopicArray subs \<Rightarrow>
          (case container_each call data subs [] of
             (None, tr) \<Rightarrow> (Inr JUndefined, tr)
           | (Some e, tr) \<Rightarrow> (Inl e, tr))
      | _ \<Rightarrow> (Inl TypeError, []))"

section \<open>Derived notions used to state the properties\<close>

text \<open>Every subscription the registry holds, topic after topic.\<close>

definition all_subscriptions :: "'f pubsub \<Rightarrow> 'f subscription list" where
  "all_subscriptions st = concat (map snd (topics st))"

text \<open>
  What a client does to one broker over its lifetime, as far as tokens go: calls
  of \<open>subscribe\<close>, with \<open>unsubscribe\<close> calls in between. \<open>run_calls\<close> makes the calls
  in order and collects what each \<open>subscribe\<close> returned; \<open>returned_values\<close> keeps
  the values of the calls that returned normally.
\<close>

datatype 'f call = Subscribe string 'f | Unsubscribe string

fun is_subscribe :: "'f call \<Rightarrow> bool" where
  "is_subscribe (Subscribe topic f) = True"
| "is_subscribe (Unsubscribe tok) = False"

fun run_calls ::
  "'f call list \<Rightarrow> 'f pubsub \<Rightarrow> (error + returned) list \<times> 'f pubsub" where
  "run_calls [] st = ([], st)"
| "run_calls (Subscribe topic f # calls) st =
     (case pubsub_subscribe topic f st of
        (r, st') \<Rightarrow> (case run_calls calls st' of (rs, st'') \<Rightarrow> (r # rs, st'')))"
| "run_calls (Unsubscribe tok # calls) st = run_calls calls (snd (pubsub_unsubscribe tok st))"

text \<open>The same for the container, whose \<open>unsubscribe\<close> takes the topic and the id.\<close>

datatype 'f container_call = ContainerSubscribe string 'f | ContainerUnsubscribe string int

fun is_container_subscribe :: "'f container_call \<Rightarrow> bool" where
  "is_container_subscribe (ContainerSubscribe topic f) = True"
| "is_container_subscribe (ContainerUnsubscribe topic n) = False"

fun container_run_calls ::
  "'f container_call list \<Rightarrow> 'f container \<Rightarrow> (error + returned) list \<times> 'f container" where
  "container_run_calls [] c = ([], c)"
| "container_run_calls (ContainerSubscribe topic f # calls) c =
     (case container_subscribe topic f c of
        (r, c') \<Rightarrow> (case container_run_calls calls c' of (rs, c'') \<Rightarrow> (r # rs, c'')))"
| "container_run_calls (ContainerUnsubscribe topic n # calls) c =
     container_run_calls calls (snd (container_unsubscribe topic n c))"

fun returned_values :: "(error + returned) list \<Rightarrow> returned list" where
  "returned_values [] = []"
| "returned_values (Inl e # rs) = returned_values rs"
| "returned_values (Inr v # rs) = v # returned_values rs"

text \<open>
  A client that, \<open>n\<close> times over, subscribes to one topic and at once unsubscribes
  with the token that call returned; \<open>j\<close> is the number of tokens the broker has
  issued before.
\<close>

definition churn :: "string \<Rightarrow> 'f \<Rightarrow> nat \<Rightarrow> nat \<Rightarrow> 'f call list" where
  "churn topic f j n =
     concat (map (\<lambda>k. [Subscribe topic f, Unsubscribe (toString (min (int k) (2 ^ 53)))])
               [j..<j + n])"

section \<open>Properties of \<open>unsubscribe\<close> on the topic broker\<close>

lemma find_token_None: "(find_token tok subs = None) = (tok \<notin> token ` set subs)"
  by (induction subs) auto

lemma unsubscribe_scan_None:
  "(unsubscribe_scan tok ts = None) = (tok \<notin> token ` set (concat (map snd ts)))"
  by (induction ts) (auto simp: find_token_None split: option.splits)

text \<open>
  Claim C4, as the code has it: for every token that matches no subscription in
  any topic, \<open>unsubscribe(token)\<close> returns the broker itself (\<open>return this\<close>) and
  leaves the whole registry, and the counter, unchanged. It does not return a
  separate "not found" value.
\<close>

theorem pubsub_unsubscribe_unknown:
  "tok \<notin> token ` set (all_subscriptions st) \<Longrightarrow> pubsub_unsubscribe tok st = (JThis, st)"
  using unsubscribe_scan_None [of tok "topics st"]
  by (simp add: pubsub_unsubscribe_def all_subscriptions_def)

theorem pubsub_unsubscribe_unknown_witness:
  "''7'' \<notin> token ` set (all_subscriptions
      \<lparr>topics = [(''clicks'', [\<lparr>token = ''0'', func = 1 :: nat\<rparr>])], subUid = 0\<rparr>)
   \<and> pubsub_unsubscribe ''7''
       \<lparr>topics = [(''clicks'', [\<lparr>token = ''0'', func = 1 :: nat\<rparr>])], subUid = 0\<rparr>
     = (JThis, \<lparr>topics = [(''clicks'', [\<lparr>token = ''0'', func = 1 :: nat\<rparr>])], subUid = 0\<rparr>)"
  using pubsub_unsubscribe_unknown
    [of "''7''" "\<lparr>topics = [(''clicks'', [\<lparr>token = ''0'', func = 1 :: nat\<rparr>])], subUid = 0\<rparr>"]
  by (simp add: all_subscriptions_def)

text \<open>
  With one subscription under token \<open>0\<close>, unsubscribing the unknown token \<open>7\<close>
  returns \<open>this\<close>, the truthy broker object.
\<close>

theorem pubsub_unsubscribe_unknown_counterexample:
  "fst (pubsub_unsubscribe ''7''
     \<lparr>topics = [(''clicks'', [\<lparr>token = ''0'', func = 1 :: nat\<rparr>])], subUid = 0\<rparr>) = JThis"
  by (simp add: pubsub_unsubscribe_def)

lemma splice1_nat: "i < length xs \<Longrightarrow> splice1 (int i) xs = take i xs @ drop (Suc i) xs"
  by (simp add: splice1_def Let_def)

lemma filter_other_tokens_id:
  "tok \<notin> token ` set subs \<Longrightarrow> filter (\<lambda>s. token s \<noteq> tok) subs = subs"
  by (induction subs) auto

lemma count_zero_iff:
  "(filter (\<lambda>s. token s = tok) subs = []) = (tok \<notin> token ` set subs)"
  by (induction subs) auto

lemma find_token_splice:
  "find_token tok subs = Some i \<Longrightarrow> length (filter (\<lambda>s. token s = tok) subs) = 1 \<Longrightarrow>
     i < length subs \<and> splice1 (int i) subs = filter (\<lambda>s. token s \<noteq> tok) subs"
proof (induction subs arbitrary: i)
  case Nil
  then show ?case by simp
next
  case (Cons s subs)
  show ?case
  proof (cases "token s = tok")
    case True
    with Cons.prems have i: "i = 0" and none: "tok \<notin> token ` set subs"
      by (auto simp: count_zero_iff)
    with True show ?thesis
      by (simp add: splice1_def Let_def filter_other_tokens_id)
  next
    case False
    with Cons.prems obtain j where j: "find_token tok subs = Some j" "i = Suc j"
      by auto
    from False Cons.prems have "length (filter (\<lambda>s. token s = tok) subs) = 1"
      by simp
    with Cons.IH j have "j < length subs"
      and "splice1 (int j) subs = filter (\<lambda>s. token s \<noteq> tok) subs"
      by auto
    with False j splice1_nat [of "Suc j" "s # subs"] splice1_nat [of j subs] show ?thesis
      by simp
  qed
qed

lemma map_filter_other_tokens_id:
  "tok \<notin> token ` set (concat (map snd ts)) \<Longrightarrow>
     map (\<lambda>(m, subs). (m, filter (\<lambda>s. token s \<noteq> tok) subs)) ts = ts"
  by (induction ts) (auto simp: filter_id_conv)

lemma unsubscribe_scan_single:
  "length (filter (\<lambda>s. token s = tok) (concat (map snd ts))) = 1 \<Longrightarrow>
     unsubscribe_scan tok ts
       = Some (map (\<lambda>(m, subs). (m, filter (\<lambda>s. token s \<noteq> tok) subs)) ts)"
proof (induction ts)
  case Nil
  then show ?case by simp
next
  case (Cons p ts)
  obtain m subs where p: "p = (m, subs)" by (cases p)
  show ?case
  proof (cases "find_token tok subs")
    case None
    then have none: "tok \<notin> token ` set subs"
      by (simp add: find_token_None)
    then have "length (filter (\<lambda>s. token s = tok) subs) = 0"
      by (simp add: count_zero_iff)
    with Cons.prems p have "length (filter (\<lambda>s. token s = tok) (concat (map snd ts))) = 1"
      by simp
    with Cons.IH None none p show ?thesis
      by (simp add: filter_other_tokens_id)
  next
    case (Some i)
    then have "tok \<in> token ` set subs"
      using find_token_None [of tok subs] by auto
    then have pos: "0 < length (filter (\<lambda>s. token s = tok) subs)"
      by (simp add: count_zero_iff)
    from Cons.prems p have "length (filter (\<lambda>s. token s = tok) subs)
        + length (filter (\<lambda>s. token s = tok) (concat (map snd ts))) = 1"
      by simp
    with pos have one: "length (filter (\<lambda>s. token s = tok) subs) = 1"
      and rest: "length (filter (\<lambda>s. token s = tok) (concat (map snd ts))) = 0"
      by linarith+
    from rest have "tok \<notin> token ` set (concat (map snd ts))"
      by (simp add: count_zero_iff del: filter_concat)
    then have "map (\<lambda>(m, subs). (m, filter (\<lambda>s. token s \<noteq> tok) subs)) ts = ts"
      by (rule map_filter_other_tokens_id)
    with Some one p find_token_splice [OF Some one] show ?thesis
      by simp
  qed
qed

text \<open>
  Claim C5: when exactly one subscription in the registry holds the token,
  \<open>unsubscribe(token)\<close> returns the token and removes that subscription; every
  topic keeps all its other subscriptions, in the same order, the topics stay as
  they are, and the registry is one subscription shorter.
\<close>

theorem pubsub_unsubscribe_known:
  assumes "length (filter (\<lambda>s. token s = tok) (all_subscriptions st)) = 1"
  shows "pubsub_unsubscribe tok st
           = (JString tok,
              st\<lparr>topics := map (\<lambda>(m, subs). (m, filter (\<lambda>s. token s \<noteq> tok) subs)) (topics st)\<rparr>)
         \<and> length (all_subscriptions (snd (pubsub_unsubscribe tok st))) + 1
             = length (all_subscriptions st)"
proof -
  let ?keep = "\<lambda>s :: 'a subscription. token s \<noteq> tok"
  have scan: "unsubscribe_scan tok (topics st)
                = Some (map (\<lambda>(m, subs). (m, filter ?keep subs)) (topics st))"
    using assms by (simp add: unsubscribe_scan_single all_subscriptions_def)
  have "concat (map snd (map (\<lambda>(m, subs). (m, filter ?keep subs)) (topics st)))
          = filter ?keep (concat (map snd (topics st)))"
    by (induction "topics st" arbitrary: st) (auto simp: filter_concat comp_def split_def)
  moreover have "length (filter ?keep (all_subscriptions st))
                   + length (filter (\<lambda>s. token s = tok) (all_subscriptions st))
                 = length (all_subscriptions st)"
    using sum_length_filter_compl [of "\<lambda>s. token s = tok" "all_subscriptions st"]
    by simp
  ultimately show ?thesis
    using scan assms by (simp add: pubsub_unsubscribe_def all_subscriptions_def)
qed

theorem pubsub_unsubscribe_known_witness:
  "length (filter (\<lambda>s. token s = ''1'') (all_subscriptions
      \<lparr>topics = [(''clicks'', [\<lparr>token = ''0'', func = 1 :: nat\<rparr>, \<lparr>token = ''1'', func = 2\<rparr>]),
                 (''keys'', [\<lparr>token = ''2'', func = 3\<rparr>])], subUid = 2\<rparr>)) = 1
   \<and> pubsub_unsubscribe ''1''
      \<lparr>topics = [(''clicks'', [\<lparr>token = ''0'', func = 1 :: nat\<rparr>, \<lparr>token = ''1'', func = 2\<rparr>]),
                 (''keys'', [\<lparr>token = ''2'', func = 3\<rparr>])], subUid = 2\<rparr>
     = (JString ''1'',
        \<lparr>topics = [(''clicks'', [\<lparr>token = ''0'', func = 1 :: nat\<rparr>]),
                   (''keys'', [\<lparr>token = ''2'', func = 3\<rparr>])], subUid = 2\<rparr>)"
  using pubsub_unsubscribe_known [of "''1''"
      "\<lparr>topics = [(''clicks'', [\<lparr>token = ''0'', func = 1 :: nat\<rparr>, \<lparr>token = ''1'', func = 2\<rparr>]),
                 (''keys'', [\<lparr>token = ''2'', func = 3\<rparr>])], subUid = 2\<rparr>"]
  by (simp add: all_subscriptions_def)

section \<open>Properties of the observer list\<close>

lemma indexOf_absent:
  "obj \<notin> set observerList \<Longrightarrow> ObserverList_indexOf obj i observerList = - 1"
proof (induction obj i observerList rule: ObserverList_indexOf.induct)
  case (1 obj i observerList)
  show ?case
  proof (cases "i < int (length observerList)")
    case True
    have "\<not> (0 \<le> i \<and> observerList ! nat i = obj)"
      using True "1.prems" by (metis nat_less_iff nth_mem)
    with True 1 show ?thesis
      by (subst ObserverList_indexOf.simps) simp
  next
    case False
    then show ?thesis by (subst ObserverList_indexOf.simps) simp
  qed
qed

lemma splice1_minus_one: "splice1 (- 1) xs = butlast xs"
  by (cases xs rule: rev_cases) (simp_all add: splice1_def Let_def)

text \<open>
  \<open>removeObserver\<close> of an observer that is not in the list hands the \<open>- 1\<close> of
  \<open>indexOf\<close> to \<open>splice\<close>, which counts it from the end: the last observer goes.
\<close>

lemma removeObserver_absent:
  "observer \<notin> set (observers s) \<Longrightarrow>
     Subject_removeObserver observer s = s\<lparr>observers := butlast (observers s)\<rparr>"
  by (simp add: Subject_removeObserver_def ObserverList_removeAt_def indexOf_absent splice1_minus_one)

text \<open>
  Claim C8 asks that \<open>removeObserver(o)\<close> be a no-op when \<open>o\<close> is not in the list.
  On the list of observers 1 and 2, removing observer 3, which was never added,
  removes observer 2.
\<close>

theorem removeObserver_absent_removes_last:
  "(3::nat) \<notin> set (observers \<lparr>observers = [1, 2]\<rparr>)
   \<and> Subject_removeObserver (3::nat) \<lparr>observers = [1, 2]\<rparr> = \<lparr>observers = [1]\<rparr>"
  by (simp add: removeObserver_absent)

section \<open>Properties of \<open>Click\<close>\<close>

lemma fire_each_deliveries:
  "set (snd (snd (fire_each call scope ev items c tr)))
     \<subseteq> set tr \<union> {(f, scope, ev) | f. Function f \<in> set items}"
proof (induction items arbitrary: c tr)
  case Nil
  show ?case by simp
next
  case (Cons item rest)
  show ?case
  proof (cases item)
    case (Function f)
    show ?thesis
    proof (cases "call f scope ev c")
      case (Pair r c')
      show ?thesis
      proof (cases r)
        case None
        with Pair Function Cons [of c' "tr @ [(f, scope, ev)]"] show ?thesis
          by auto
      next
        case (Some e)
        with Pair Function show ?thesis by auto
      qed
    qed
  qed auto
qed

text \<open>
  Claim C9: \<open>unsubscribe(fn)\<close> removes every registration identical to \<open>fn\<close>,
  however often it was subscribed; what remains is the list without them (and
  without falsy entries, which \<open>filter\<close> also drops), in the same relative order,
  so that of a list of functions every other function stays; and a \<open>fire\<close> that
  follows calls \<open>fn\<close> zero times, also when handlers subscribe or unsubscribe
  while it runs.
\<close>

theorem Click_unsubscribe_removes_all:
  "handlers (Click_unsubscribe fn c) = filter (\<lambda>item. item \<noteq> fn \<and> truthy item) (handlers c)
   \<and> fn \<notin> set (handlers (Click_unsubscribe fn c))
   \<and> subseq (handlers (Click_unsubscribe fn c)) (handlers c)
   \<and> handlers (Click_unsubscribe (Function f) \<lparr>handlers = map Function fs\<rparr>)
       = map Function (filter (\<lambda>g. g \<noteq> f) fs)
   \<and> filter (\<lambda>d. fst d = f)
        (snd (snd (Click_fire call ev thisObj (Click_unsubscribe (Function f) c)))) = []"
proof -
  have eq: "handlers (Click_unsubscribe fn c)
              = filter (\<lambda>item. item \<noteq> fn \<and> truthy item) (handlers c)"
    for fn :: "'a jsvalue" and c
  proof -
    have "(\<lambda>item. truthy (if item \<noteq> fn then item else Undefined))
            = (\<lambda>item. item \<noteq> fn \<and> truthy item)"
      by auto
    then show ?thesis by (simp add: Click_unsubscribe_def)
  qed
  have gone: "Function f \<notin> set (handlers (Click_unsubscribe (Function f) c))"
    by (simp add: eq)
  have "set (snd (snd (Click_fire call ev thisObj (Click_unsubscribe (Function f) c))))
          \<subseteq> {(g, scope_of thisObj, ev) | g.
               Function g \<in> set (handlers (Click_unsubscribe (Function f) c))}"
    using fire_each_deliveries [of call "scope_of thisObj" ev _ _ "[]"]
    by (simp add: Click_fire_def)
  with gone have "\<forall>d \<in> set (snd (snd (Click_fire call ev thisObj
                      (Click_unsubscribe (Function f) c)))). fst d \<noteq> f"
    by auto
  then have "filter (\<lambda>d. fst d = f)
        (snd (snd (Click_fire call ev thisObj (Click_unsubscribe (Function f) c)))) = []"
    by (simp add: filter_empty_conv)
  moreover have "handlers (Click_unsubscribe (Function f) \<lparr>handlers = map Function fs\<rparr>)
       = map Function (filter (\<lambda>g. g \<noteq> f) fs)"
    by (induction fs) (simp_all add: eq)
  ultimately show ?thesis
    using eq [of fn c] by simp
qed

theorem Click_unsubscribe_removes_all_witness:
  "handlers (Click_unsubscribe (Function (1::nat))
       \<lparr>handlers = [Function 1, Function 2, Function 1, Function 3]\<rparr>) = [Function 2, Function 3]
   \<and> fst (Click_fire (\<lambda>f sc ev c. (None, c)) ''event #2'' (None :: unit option)
        (Click_unsubscribe (Function (1::nat))
           \<lparr>handlers = [Function 1, Function 2, Function 1, Function 3]\<rparr>)) = None
   \<and> snd (snd (Click_fire (\<lambda>f sc ev c. (None, c)) ''event #2'' (None :: unit option)
        (Click_unsubscribe (Function (1::nat))
           \<lparr>handlers = [Function 1, Function 2, Function 1, Function 3]\<rparr>)))
      = [(2, Window, ''event #2''), (3, Window, ''event #2'')]"
  using Click_unsubscribe_removes_all
    [where fn = "Function (1::nat)"
       and c = "\<lparr>handlers = [Function 1, Function 2, Function 1, Function 3]\<rparr>"]
  by (simp add: Click_fire_def scope_of_def Click_unsubscribe_def)

section \<open>Properties of \<open>publish\<close>\<close>

text \<open>The definitions to unfold when an operation is run on a concrete broker.\<close>

lemmas js_eval =
  incr_def toString_def digits.simps digit_def digit_value_def array_index_def
  enumerated_before_def object_prototype_def splice1_def Let_def

lemmas pubsub_eval =
  pubsub_init_def lookup_def pubsub_subscribe_def pubsub_publish_def pubsub_unsubscribe_def
  element_def js_eval

lemmas container_eval =
  container_init_def container_member_def container_subscribe_def container_publish_def
  js_eval

lemma element_Own_append:
  "n < length subs \<Longrightarrow> element (Own (subs @ ext)) n = Some (subs ! n)"
  by (simp add: element_def nth_append)

lemma publish_loop_invariant:
  assumes inv: "I st" and n: "n \<le> length subs"
    and reads: "\<And>st'. I st' \<Longrightarrow> \<exists>ext. lookup st' topic = Own (subs @ ext)"
    and steps: "\<And>st' s. I st' \<Longrightarrow> s \<in> set subs \<Longrightarrow>
                  \<exists>st''. call (func s) topic args st' = (None, st'') \<and> I st''"
  shows "\<exists>st'. publish_loop call topic args n st tr
                 = (None, st', tr @ map (\<lambda>s. (func s, topic, args)) (rev (take n subs)))
               \<and> I st'"
  using inv n
proof (induction n arbitrary: st tr)
  case 0
  then show ?case by simp
next
  case (Suc n)
  from Suc.prems have n: "n < length subs" by simp
  from reads [OF Suc.prems(1)] obtain ext where "lookup st topic = Own (subs @ ext)" ..
  with n have el: "element (lookup st topic) n = Some (subs ! n)"
    by (simp add: element_Own_append)
  from n have "subs ! n \<in> set subs" by simp
  from steps [OF Suc.prems(1) this] obtain st''
    where call: "call (func (subs ! n)) topic args st = (None, st'')" and inv': "I st''"
    by blast
  from n have "n \<le> length subs" by simp
  from Suc.IH [OF inv' this, of "tr @ [(func (subs ! n), topic, args)]"]
  obtain st' where
    "publish_loop call topic args n st'' (tr @ [(func (subs ! n), topic, args)])
       = (None, st', (tr @ [(func (subs ! n), topic, args)])
                     @ map (\<lambda>s. (func s, topic, args)) (rev (take n subs)))"
    and "I st'"
    by blast
  with el call n show ?case
    by (simp add: take_Suc_conv_app_nth)
qed


lemma container_each_all:
  "\<forall>s \<in> set subs. call (callback s) data = None \<Longrightarrow>
     container_each call data subs tr = (None, tr @ map (\<lambda>s. (callback s, data)) subs)"
  by (induction subs arbitrary: tr) auto

text \<open>
  Claim C1, as the code has it: for a topic with a subscriber sequence, when the
  callbacks return normally and leave that sequence as it is, \<open>pubsub.publish\<close>
  invokes each subscribed callback exactly once with \<open>(topic, args)\<close>, in reverse
  subscription order (\<open>while (len--)\<close> walks the array from its end, so the callback
  subscribed last is invoked first), and returns \<open>this\<close>. \<open>container.publish\<close> of
  part_002 walks the array from its start, so it keeps subscription order, and
  passes the single argument \<open>data\<close>.
\<close>

theorem publish_delivery_order:
  "(lookup st topic = Own subs \<longrightarrow>
    (\<forall>st'. lookup st' topic = Own subs \<longrightarrow>
       (\<forall>s \<in> set subs. \<exists>st''. call (func s) topic args st' = (None, st'')
                                \<and> lookup st'' topic = Own subs)) \<longrightarrow>
    (\<exists>st'. pubsub_publish call topic args st
             = (Inr JThis, st', map (\<lambda>s. (func s, topic, args)) (rev subs))))
   \<and> (container_member c ctopic = TopicArray csubs \<longrightarrow>
      (\<forall>s \<in> set csubs. ccall (callback s) data = None) \<longrightarrow>
      container_publish ccall ctopic data c
        = (Inr JUndefined, map (\<lambda>s. (callback s, data)) csubs))"
proof (intro conjI impI)
  assume own: "lookup st topic = Own subs"
    and stable: "\<forall>st'. lookup st' topic = Own subs \<longrightarrow>
       (\<forall>s \<in> set subs. \<exists>st''. call (func s) topic args st' = (None, st'')
                                \<and> lookup st'' topic = Own subs)"
  have "\<exists>st'. publish_loop call topic args (length subs) st []
                 = (None, st', [] @ map (\<lambda>s. (func s, topic, args)) (rev (take (length subs) subs)))
               \<and> lookup st' topic = Own subs"
  proof (rule publish_loop_invariant [where I = "\<lambda>st'. lookup st' topic = Own subs"])
    show "lookup st topic = Own subs" by (rule own)
    show "length subs \<le> length subs" by simp
    show "\<exists>ext. lookup st' topic = Own (subs @ ext)" if "lookup st' topic = Own subs" for st'
      using that by simp
    show "\<exists>st''. call (func s) topic args st' = (None, st'') \<and> lookup st'' topic = Own subs"
      if "lookup st' topic = Own subs" "s \<in> set subs" for st' s
      using that stable by blast
  qed
  then show "\<exists>st'. pubsub_publish call topic args st
             = (Inr JThis, st', map (\<lambda>s. (func s, topic, args)) (rev subs))"
    using own by (auto simp: pubsub_publish_def)
next
  assume "container_member c ctopic = TopicArray csubs"
    and "\<forall>s \<in> set csubs. ccall (callback s) data = None"
  then show "container_publish ccall ctopic data c
        = (Inr JUndefined, map (\<lambda>s. (callback s, data)) csubs)"
    by (simp add: container_publish_def container_each_all)
qed

theorem publish_delivery_order_witness:
  "lookup \<lparr>topics = [(''clicks'', [\<lparr>token = ''0'', func = 1 :: nat\<rparr>, \<lparr>token = ''1'', func = 2\<rparr>])],
           subUid = 1\<rparr> ''clicks''
     = Own [\<lparr>token = ''0'', func = 1\<rparr>, \<lparr>token = ''1'', func = 2\<rparr>]
   \<and> pubsub_publish (\<lambda>f t a s. (None, s)) ''clicks'' (7 :: nat)
        \<lparr>topics = [(''clicks'', [\<lparr>token = ''0'', func = 1 :: nat\<rparr>, \<lparr>token = ''1'', func = 2\<rparr>])],
           subUid = 1\<rparr>
     = (Inr JThis,
        \<lparr>topics = [(''clicks'', [\<lparr>token = ''0'', func = 1 :: nat\<rparr>, \<lparr>token = ''1'', func = 2\<rparr>])],
           subUid = 1\<rparr>,
        [(2, ''clicks'', 7), (1, ''clicks'', 7)])
   \<and> container_member
        \<lparr>topic_arrays = [(''mouseClicked'', [\<lparr>id' = 1, callback = 1 :: nat\<rparr>, \<lparr>id' = 3, callback = 3\<rparr>])],
           id_var = 3\<rparr> ''mouseClicked''
     = TopicArray [\<lparr>id' = 1, callback = 1\<rparr>, \<lparr>id' = 3, callback = 3\<rparr>]
   \<and> container_publish (\<lambda>f d. None) ''mouseClicked'' (7 :: nat)
        \<lparr>topic_arrays = [(''mouseClicked'', [\<lparr>id' = 1, callback = 1 :: nat\<rparr>, \<lparr>id' = 3, callback = 3\<rparr>])],
           id_var = 3\<rparr>
     = (Inr JUndefined, [(1, 7), (3, 7)])"
  using publish_delivery_order
    [of "\<lparr>topics = [(''clicks'', [\<lparr>token = ''0'', func = 1 :: nat\<rparr>, \<lparr>token = ''1'', func = 2\<rparr>])],
           subUid = 1\<rparr>"
        "''clicks''" "[\<lparr>token = ''0'', func = 1\<rparr>, \<lparr>token = ''1'', func = 2\<rparr>]"
        "\<lambda>f t a s. (None, s)" "7 :: nat"
        "\<lparr>topic_arrays = [(''mouseClicked'', [\<lparr>id' = 1, callback = 1 :: nat\<rparr>, \<lparr>id' = 3, callback = 3\<rparr>])],
           id_var = 3\<rparr>"
        "''mouseClicked''" "[\<lparr>id' = 1, callback = 1\<rparr>, \<lparr>id' = 3, callback = 3\<rparr>]"
        "\<lambda>f d. None" "7 :: nat"]
  by (simp add: pubsub_eval container_eval)

text \<open>
  On a fresh broker, callback 1 is subscribed to \<open>clicks\<close> before callback 2;
  a publish then calls callback 2 first.
\<close>

theorem publish_delivery_order_counterexample:
  "snd (snd (pubsub_publish (\<lambda>f t a s. (None, s)) ''clicks'' (7 :: nat)
       (snd (pubsub_subscribe ''clicks'' 2
          (snd (pubsub_subscribe ''clicks'' (1 :: nat) pubsub_init))))))
     = [(2, ''clicks'', 7), (1, ''clicks'', 7)]
   \<and> snd (snd (pubsub_publish (\<lambda>f t a s. (None, s)) ''clicks'' (7 :: nat)
       (snd (pubsub_subscribe ''clicks'' 2
          (snd (pubsub_subscribe ''clicks'' (1 :: nat) pubsub_init))))))
     \<noteq> [(1, ''clicks'', 7), (2, ''clicks'', 7)]"
  by (simp add: pubsub_eval)

text \<open>
  Claim C2, as the code has it: \<open>publish\<close> never returns a count. On a topic
  without an entry (never subscribed to, and not a name every object inherits)
  \<open>pubsub.publish\<close> returns \<open>false\<close>, invokes nothing and throws nothing; on a topic
  whose sequence is empty it invokes nothing and returns the broker, \<open>this\<close>; and
  whenever it returns at all, it returns \<open>false\<close> in the first case and \<open>this\<close>
  otherwise. \<open>container.publish\<close> has no \<open>return\<close>: what it returns is \<open>undefined\<close>.
\<close>

theorem publish_return_value:
  "(lookup st topic = Absent \<longrightarrow>
      pubsub_publish call topic args st = (Inr (JBool False), st, []))
   \<and> (lookup st topic = Own [] \<longrightarrow> pubsub_publish call topic args st = (Inr JThis, st, []))
   \<and> (\<forall>r. fst (pubsub_publish call topic args st) = Inr r \<longrightarrow>
          r = (if lookup st topic = Absent then JBool False else JThis))
   \<and> (\<forall>r. fst (container_publish ccall ctopic data c) = Inr r \<longrightarrow> r = JUndefined)"
proof (intro conjI impI allI)
  assume "lookup st topic = Absent"
  then show "pubsub_publish call topic args st = (Inr (JBool False), st, [])"
    by (simp add: pubsub_publish_def)
next
  assume "lookup st topic = Own []"
  then show "pubsub_publish call topic args st = (Inr JThis, st, [])"
    by (simp add: pubsub_publish_def)
next
  fix r
  assume "fst (pubsub_publish call topic args st) = Inr r"
  then show "r = (if lookup st topic = Absent then JBool False else JThis)"
    by (auto simp: pubsub_publish_def Let_def split: slot.splits prod.splits option.splits)
next
  fix r
  assume "fst (container_publish ccall ctopic data c) = Inr r"
  then show "r = JUndefined"
    by (auto simp: container_publish_def split: member.splits prod.splits option.splits)
qed

theorem publish_return_value_witness:
  "lookup (snd (pubsub_subscribe ''clicks'' (1 :: nat) pubsub_init)) ''keys'' = Absent
   \<and> pubsub_publish (\<lambda>f t a s. (None, s)) ''keys'' (7 :: nat)
        (snd (pubsub_subscribe ''clicks'' (1 :: nat) pubsub_init))
     = (Inr (JBool False), snd (pubsub_subscribe ''clicks'' (1 :: nat) pubsub_init), [])
   \<and> lookup (snd (pubsub_unsubscribe ''0'' (snd (pubsub_subscribe ''clicks'' (1 :: nat) pubsub_init))))
        ''clicks'' = Own []
   \<and> pubsub_publish (\<lambda>f t a s. (None, s)) ''clicks'' (7 :: nat)
        (snd (pubsub_unsubscribe ''0'' (snd (pubsub_subscribe ''clicks'' (1 :: nat) pubsub_init))))
     = (Inr JThis,
        snd (pubsub_unsubscribe ''0'' (snd (pubsub_subscribe ''clicks'' (1 :: nat) pubsub_init))), [])
   \<and> fst (pubsub_publish (\<lambda>f t a s. (None, s)) ''clicks'' (7 :: nat)
        (snd (pubsub_subscribe ''clicks'' (1 :: nat) pubsub_init))) = Inr JThis
   \<and> fst (container_publish (\<lambda>f d. None) ''mouseClicked'' (7 :: nat)
        (snd (container_subscribe ''mouseClicked'' (1 :: nat) container_init))) = Inr JUndefined"
  using publish_return_value
    [where st = "snd (pubsub_subscribe ''clicks'' (1 :: nat) pubsub_init)"
       and topic = "''keys''" and call = "\<lambda>f t a s. (None, s)" and args = "7 :: nat"]
    publish_return_value
    [where st = "snd (pubsub_unsubscribe ''0'' (snd (pubsub_subscribe ''clicks'' (1 :: nat) pubsub_init)))"
       and topic = "''clicks''" and call = "\<lambda>f t a s. (None, s)" and args = "7 :: nat"]
  by (simp add: pubsub_eval container_eval)

text \<open>
  With callbacks 1 and 2 subscribed to \<open>clicks\<close>, a publish invokes two callbacks
  and returns \<open>this\<close>, not 2; on the topic \<open>keys\<close>, never subscribed to, it returns
  \<open>false\<close>, not 0.
\<close>

theorem publish_return_value_counterexample:
  "fst (pubsub_publish (\<lambda>f t a s. (None, s)) ''clicks'' (7 :: nat)
       (snd (pubsub_subscribe ''clicks'' 2
          (snd (pubsub_subscribe ''clicks'' (1 :: nat) pubsub_init))))) = Inr JThis
   \<and> length (snd (snd (pubsub_publish (\<lambda>f t a s. (None, s)) ''clicks'' (7 :: nat)
       (snd (pubsub_subscribe ''clicks'' 2
          (snd (pubsub_subscribe ''clicks'' (1 :: nat) pubsub_init))))))) = 2
   \<and> fst (pubsub_publish (\<lambda>f t a s. (None, s)) ''keys'' (7 :: nat)
       (snd (pubsub_subscribe ''clicks'' 2
          (snd (pubsub_subscribe ''clicks'' (1 :: nat) pubsub_init))))) = Inr (JBool False)"
  by (simp add: pubsub_eval)





section \<open>Deliveries while the sequence changes\<close>

lemmas subject_eval =
  Subject_init_def Subject_addObserver_def Subject_removeObserver_def Subject_notify_def
  ObserverList_add_def ObserverList_count_def ObserverList_get_def ObserverList_removeAt_def
  ObserverList_indexOf.simps notify_loop.simps splice1_def Let_def

lemma get_initial:
  "i < length obs \<Longrightarrow> ObserverList_get (int i) (obs @ ext) = Some (obs ! i)"
  by (simp add: ObserverList_get_def nth_append)

lemma notify_loop_length:
  "length (snd (snd (notify_loop update ctx n i s tr))) \<le> length tr + (n - i)"
proof (induction update ctx n i s tr rule: notify_loop.induct)
  case (1 update ctx observerCount i s tr)
  show ?case
  proof (cases "i < observerCount")
    case False
    then show ?thesis by (subst notify_loop.simps) simp
  next
    case True
    show ?thesis
    proof (cases "ObserverList_get (int i) (observers s)")
      case None
      with True show ?thesis by (subst notify_loop.simps) simp
    next
      case (Some ob)
      obtain r s' where upd: "update ob ctx s = (r, s')" by (cases "update ob ctx s")
      show ?thesis
      proof (cases r)
        case None
        with "1.IH" [OF True Some upd [symmetric, unfolded None] refl] True Some upd
        show ?thesis
          by (subst notify_loop.simps) simp
      next
        case (Some e)
        with True \<open>ObserverList_get (int i) (observers s) = Some ob\<close> upd show ?thesis
          by (subst notify_loop.simps) simp
      qed
    qed
  qed
qed

lemma notify_loop_appending:
  assumes appends: "\<And>ob s'. \<exists>ext. observers (snd (update ob ctx s')) = observers s' @ ext"
  shows "observers s = obs @ extra \<Longrightarrow> i \<le> length obs \<Longrightarrow>
         \<exists>zs. snd (snd (notify_loop update ctx (length obs) i s tr))
                 = tr @ map (\<lambda>ob. (ob, ctx)) zs \<and> prefix zs (drop i obs)"
proof (induction "length obs - i" arbitrary: i s tr extra)
  case 0
  then have "i = length obs" by simp
  then show ?case by (subst notify_loop.simps) simp
next
  case (Suc d)
  then have i: "i < length obs" by simp
  with Suc.prems have get: "ObserverList_get (int i) (observers s) = Some (obs ! i)"
    by (simp add: get_initial)
  obtain r s' where upd: "update (obs ! i) ctx s = (r, s')"
    by (cases "update (obs ! i) ctx s")
  from appends [of "obs ! i" s] upd Suc.prems obtain ext where s': "observers s' = obs @ (extra @ ext)"
    by auto
  have drop: "drop i obs = obs ! i # drop (Suc i) obs"
    using i by (simp add: Cons_nth_drop_Suc)
  show ?case
  proof (cases r)
    case (Some e)
    with i get upd have "snd (snd (notify_loop update ctx (length obs) i s tr))
        = tr @ map (\<lambda>ob. (ob, ctx)) [obs ! i]"
      by (subst notify_loop.simps) simp
    moreover have "prefix [obs ! i] (drop i obs)"
      by (simp add: drop)
    ultimately show ?thesis by blast
  next
    case None
    from Suc.hyps i have "d = length obs - Suc i" by simp
    from Suc.hyps(1) [OF this s', of "tr @ [(obs ! i, ctx)]"] i
    obtain zs where zs:
      "snd (snd (notify_loop update ctx (length obs) (Suc i) s' (tr @ [(obs ! i, ctx)])))
         = (tr @ [(obs ! i, ctx)]) @ map (\<lambda>ob. (ob, ctx)) zs"
      "prefix zs (drop (Suc i) obs)"
      by auto
    from None i get upd zs(1)
    have "snd (snd (notify_loop update ctx (length obs) i s tr))
            = tr @ map (\<lambda>ob. (ob, ctx)) (obs ! i # zs)"
      by (subst notify_loop.simps) simp
    moreover have "prefix (obs ! i # zs) (drop i obs)"
      using zs(2) by (simp add: drop)
    ultimately show ?thesis by blast
  qed
qed


















text \<open>
  Claim C10, as the code has it: \<open>notify\<close> reads the observer count once, so it
  makes at most that many \<open>update\<close> calls, whatever the observers do. When no
  \<open>update\<close> removes an observer (each leaves the list as it was, possibly longer at
  its end), the calls made are to an initial stretch of the list \<open>notify\<close> started
  with, in order: an observer appended during the call is not invoked in it.
\<close>

theorem notify_count_read_once:
  "length (snd (snd (Subject_notify update ctx s))) \<le> length (observers s)
   \<and> ((\<forall>ob s'. \<exists>ext. observers (snd (update ob ctx s')) = observers s' @ ext) \<longrightarrow>
      prefix (snd (snd (Subject_notify update ctx s))) (map (\<lambda>ob. (ob, ctx)) (observers s)))"
proof (intro conjI impI)
  show "length (snd (snd (Subject_notify update ctx s))) \<le> length (observers s)"
    using notify_loop_length [of update ctx "length (observers s)" 0 s "[]"]
    by (simp add: Subject_notify_def ObserverList_count_def)
next
  assume "\<forall>ob s'. \<exists>ext. observers (snd (update ob ctx s')) = observers s' @ ext"
  then have "\<exists>zs. snd (snd (notify_loop update ctx (length (observers s)) 0 s []))
                 = [] @ map (\<lambda>ob. (ob, ctx)) zs \<and> prefix zs (drop 0 (observers s))"
    by (intro notify_loop_appending [where extra = "[]"]) auto
  then show "prefix (snd (snd (Subject_notify update ctx s))) (map (\<lambda>ob. (ob, ctx)) (observers s))"
    by (auto simp: Subject_notify_def ObserverList_count_def map_mono_prefix)
qed

theorem notify_count_read_once_witness:
  "Subject_notify (\<lambda>ob c s. (None, Subject_addObserver (ob + 10) s)) True
       \<lparr>observers = [1 :: nat, 2]\<rparr>
     = (None, \<lparr>observers = [1, 2, 11, 12]\<rparr>, [(1, True), (2, True)])"
  using notify_count_read_once
    [where update = "\<lambda>ob c s. (None, Subject_addObserver (ob + 10) s)" and ctx = True
       and s = "\<lparr>observers = [1 :: nat, 2]\<rparr>"]
  by (simp add: subject_eval)

text \<open>
  The \<open>update\<close> of observer 1 removes observer 2 and then appends observer 3: the
  second round reads index 1, where observer 3 now sits, and invokes it.
\<close>

theorem notify_count_read_once_counterexample:
  "snd (snd (Subject_notify
       (\<lambda>ob c s. (None, if ob = 1 then Subject_addObserver 3 (Subject_removeObserver 2 s) else s))
       True \<lparr>observers = [1 :: nat, 2]\<rparr>))
     = [(1, True), (3, True)]"
  by (simp add: subject_eval)

section \<open>Subscription tokens\<close>

lemma digit_inj: "a < 10 \<Longrightarrow> b < 10 \<Longrightarrow> digit a = digit b \<Longrightarrow> a = b"
proof -
  assume "a < 10" "b < 10" "digit a = digit b"
  moreover have "distinct ''0123456789''" by simp
  ultimately show "a = b"
    by (simp add: digit_def nth_eq_iff_index_eq)
qed

lemma digits_nonempty: "digits n \<noteq> []"
  by (subst digits.simps) simp

lemma digits_inj: "digits m = digits n \<Longrightarrow> m = n"
proof (induction m arbitrary: n rule: digits.induct)
  case (1 m)
  show ?case
  proof (cases "m < 10")
    case True
    then have m: "digits m = [digit m]" by (subst digits.simps) simp
    show ?thesis
    proof (cases "n < 10")
      case True
      then have "digits n = [digit n]" by (subst digits.simps) simp
      with m "1.prems" \<open>m < 10\<close> True show ?thesis
        by (simp add: digit_inj)
    next
      case False
      then have "digits n = digits (n div 10) @ [digit (n mod 10)]"
        by (subst digits.simps) simp
      with m "1.prems" digits_nonempty [of "n div 10"] show ?thesis
        by simp
    qed
  next
    case False
    then have m: "digits m = digits (m div 10) @ [digit (m mod 10)]"
      by (subst digits.simps) simp
    show ?thesis
    proof (cases "n < 10")
      case True
      then have "digits n = [digit n]" by (subst digits.simps) simp
      with m "1.prems" digits_nonempty [of "m div 10"] show ?thesis
        by simp
    next
      case nbig: False
      then have "digits n = digits (n div 10) @ [digit (n mod 10)]"
        by (subst digits.simps) simp
      with m "1.prems" have "digits (m div 10) = digits (n div 10)"
        and "digit (m mod 10) = digit (n mod 10)"
        by simp_all
      with "1.IH" [OF False] have "m div 10 = n div 10" and "m mod 10 = n mod 10"
        by (simp_all add: digit_inj)
      then show ?thesis
        by (metis div_mult_mod_eq)
    qed
  qed
qed

lemma toString_inj: "0 \<le> a \<Longrightarrow> 0 \<le> b \<Longrightarrow> toString a = toString b \<Longrightarrow> a = b"
  by (auto simp: toString_def dest: digits_inj)

lemma subscribe_counter:
  "pubsub_subscribe topic f st = (r, st') \<Longrightarrow>
     subUid st' = incr (subUid st)
     \<and> (r = Inl TypeError \<or> r = Inr (JString (toString (incr (subUid st)))))"
  by (auto simp: pubsub_subscribe_def Let_def split: slot.splits)

lemma unsubscribe_counter: "subUid (snd (pubsub_unsubscribe tok st)) = subUid st"
  by (simp add: pubsub_unsubscribe_def split: option.splits)

lemma run_calls_tokens:
  "- 1 \<le> subUid st \<Longrightarrow> subUid st + int (length (filter is_subscribe calls)) \<le> 2 ^ 53 \<Longrightarrow>
     set (returned_values (fst (run_calls calls st)))
       \<subseteq> (\<lambda>n. JString (toString n))
           ` {subUid st + 1 .. subUid st + int (length (filter is_subscribe calls))}
     \<and> distinct (returned_values (fst (run_calls calls st)))"
proof (induction calls st rule: run_calls.induct)
  case (1 st)
  show ?case by simp
next
  case (2 topic f calls st)
  let ?n = "int (length (filter is_subscribe calls))"
  obtain r st' where sub: "pubsub_subscribe topic f st = (r, st')"
    by (cases "pubsub_subscribe topic f st")
  from "2.prems" have below: "subUid st < 2 ^ 53" by simp
  with subscribe_counter [OF sub] have uid: "subUid st' = subUid st + 1"
    and r: "r = Inl TypeError \<or> r = Inr (JString (toString (subUid st + 1)))"
    by (simp_all add: incr_def)
  from uid "2.prems" have "- 1 \<le> subUid st'" "subUid st' + ?n \<le> 2 ^ 53"
    by simp_all
  from "2.IH" [OF sub [symmetric] this]
  have tail: "set (returned_values (fst (run_calls calls st')))
       \<subseteq> (\<lambda>n. JString (toString n)) ` {subUid st' + 1 .. subUid st' + ?n}"
    and dist: "distinct (returned_values (fst (run_calls calls st')))"
    by simp_all
  have fresh: "JString (toString (subUid st + 1))
                 \<notin> set (returned_values (fst (run_calls calls st')))"
  proof
    assume "JString (toString (subUid st + 1))
              \<in> set (returned_values (fst (run_calls calls st')))"
    with tail have "JString (toString (subUid st + 1))
        \<in> (\<lambda>n. JString (toString n)) ` {subUid st' + 1 .. subUid st' + ?n}"
      by (rule subsetD)
    then obtain n where "n \<in> {subUid st' + 1 .. subUid st' + ?n}"
      and "JString (toString (subUid st + 1)) = JString (toString n)"
      by (rule imageE)
    then have "subUid st' + 1 \<le> n" "toString (subUid st + 1) = toString n"
      by simp_all
    with uid "2.prems"(1) toString_inj [of "subUid st + 1" n] show False
      by simp
  qed
  let ?all = "{subUid st + 1 ..
                 subUid st + int (length (filter is_subscribe (Subscribe topic f # calls)))}"
  have "{subUid st' + 1 .. subUid st' + ?n} \<subseteq> ?all"
    using uid by auto
  with tail have tail': "set (returned_values (fst (run_calls calls st')))
       \<subseteq> (\<lambda>n. JString (toString n)) ` ?all"
    by (meson image_mono subset_trans)
  have head: "JString (toString (subUid st + 1)) \<in> (\<lambda>n. JString (toString n)) ` ?all"
    by (rule image_eqI [where x = "subUid st + 1"]) simp_all
  have eq: "fst (run_calls (Subscribe topic f # calls) st) = r # fst (run_calls calls st')"
    using sub by (simp split: prod.splits)
  from r show ?case
  proof
    assume "r = Inl TypeError"
    with eq tail' dist show ?thesis
      by simp
  next
    assume "r = Inr (JString (toString (subUid st + 1)))"
    with eq tail' dist fresh head show ?thesis
      by simp
  qed
next
  case (3 tok calls st)
  then show ?case
    by (simp add: unsubscribe_counter)
qed

lemma container_subscribe_counter:
  "container_subscribe topic f c = (r, c') \<Longrightarrow>
     id_var c' = incr (id_var c)
     \<and> (r = Inl TypeError \<or> r = Inr (JNumber (incr (id_var c))))"
  by (auto simp: container_subscribe_def Let_def split: member.splits)

lemma container_unsubscribe_counter:
  "id_var (snd (container_unsubscribe topic n c)) = id_var c"
  by (simp add: container_unsubscribe_def split: member.splits)

lemma container_run_calls_ids:
  "0 \<le> id_var c \<Longrightarrow>
   id_var c + int (length (filter is_container_subscribe calls)) \<le> 2 ^ 53 \<Longrightarrow>
     set (returned_values (fst (container_run_calls calls c)))
       \<subseteq> JNumber ` {id_var c + 1 ..
                      id_var c + int (length (filter is_container_subscribe calls))}
     \<and> distinct (returned_values (fst (container_run_calls calls c)))"
proof (induction calls c rule: container_run_calls.induct)
  case (1 c)
  show ?case by simp
next
  case (2 topic f calls c)
  let ?n = "int (length (filter is_container_subscribe calls))"
  obtain r c' where sub: "container_subscribe topic f c = (r, c')"
    by (cases "container_subscribe topic f c")
  from "2.prems" have below: "id_var c < 2 ^ 53" by simp
  with container_subscribe_counter [OF sub] have uid: "id_var c' = id_var c + 1"
    and r: "r = Inl TypeError \<or> r = Inr (JNumber (id_var c + 1))"
    by (simp_all add: incr_def)
  from uid "2.prems" have "0 \<le> id_var c'" "id_var c' + ?n \<le> 2 ^ 53"
    by simp_all
  from "2.IH" [OF sub [symmetric] this]
  have tail: "set (returned_values (fst (container_run_calls calls c')))
       \<subseteq> JNumber ` {id_var c' + 1 .. id_var c' + ?n}"
    and dist: "distinct (returned_values (fst (container_run_calls calls c')))"
    by simp_all
  have fresh: "JNumber (id_var c + 1)
                 \<notin> set (returned_values (fst (container_run_calls calls c')))"
  proof
    assume "JNumber (id_var c + 1)
              \<in> set (returned_values (fst (container_run_calls calls c')))"
    with tail have "JNumber (id_var c + 1) \<in> JNumber ` {id_var c' + 1 .. id_var c' + ?n}"
      by (rule subsetD)
    with uid show False by auto
  qed
  let ?all = "{id_var c + 1 ..
                 id_var c + int (length (filter is_container_subscribe
                                           (ContainerSubscribe topic f # calls)))}"
  have "{id_var c' + 1 .. id_var c' + ?n} \<subseteq> ?all"
    using uid by auto
  with tail have tail': "set (returned_values (fst (container_run_calls calls c')))
       \<subseteq> JNumber ` ?all"
    by (meson image_mono subset_trans)
  have head: "JNumber (id_var c + 1) \<in> JNumber ` ?all"
    by (rule image_eqI [where x = "id_var c + 1"]) simp_all
  have eq: "fst (container_run_calls (ContainerSubscribe topic f # calls) c)
              = r # fst (container_run_calls calls c')"
    using sub by (simp split: prod.splits)
  from r show ?case
  proof
    assume "r = Inl TypeError"
    with eq tail' dist show ?thesis
      by simp
  next
    assume "r = Inr (JNumber (id_var c + 1))"
    with eq tail' dist fresh head show ?thesis
      by simp
  qed
next
  case (3 topic n calls c)
  then show ?case
    by (simp add: container_unsubscribe_counter)
qed

text \<open>At \<open>2 ^ 53\<close> the counter stays where it is, and so does the token.\<close>

lemma incr_stuck: "incr (2 ^ 53) = 2 ^ 53"
  by (simp add: incr_def)

lemma run_calls_stuck:
  "subUid st = 2 ^ 53 \<Longrightarrow>
     set (returned_values (fst (run_calls calls st))) \<subseteq> {JString (toString (2 ^ 53))}"
proof (induction calls st rule: run_calls.induct)
  case (1 st)
  show ?case by simp
next
  case (2 topic f calls st)
  obtain r st' where sub: "pubsub_subscribe topic f st = (r, st')"
    by (cases "pubsub_subscribe topic f st")
  from subscribe_counter [OF sub] "2.prems" have uid: "subUid st' = 2 ^ 53"
    and r: "r = Inl TypeError \<or> r = Inr (JString (toString (2 ^ 53)))"
    by (simp_all only: incr_stuck)
  from "2.IH" [OF sub [symmetric] uid]
  have tail: "set (returned_values (fst (run_calls calls st')))
                \<subseteq> {JString (toString (2 ^ 53))}" .
  have eq: "fst (run_calls (Subscribe topic f # calls) st) = r # fst (run_calls calls st')"
    using sub by (simp split: prod.splits)
  from r tail show ?case
    by (auto simp only: eq returned_values.simps set_simps insert_subset)
next
  case (3 tok calls st)
  from "3.prems" have "subUid (snd (pubsub_unsubscribe tok st)) = 2 ^ 53"
    by (simp only: unsubscribe_counter)
  from "3.IH" [OF this] show ?case
    by (simp only: run_calls.simps)
qed

lemma container_run_calls_stuck:
  "id_var c = 2 ^ 53 \<Longrightarrow>
     set (returned_values (fst (container_run_calls calls c))) \<subseteq> {JNumber (2 ^ 53)}"
proof (induction calls c rule: container_run_calls.induct)
  case (1 c)
  show ?case by simp
next
  case (2 topic f calls c)
  obtain r c' where sub: "container_subscribe topic f c = (r, c')"
    by (cases "container_subscribe topic f c")
  from container_subscribe_counter [OF sub] "2.prems" have uid: "id_var c' = 2 ^ 53"
    and r: "r = Inl TypeError \<or> r = Inr (JNumber (2 ^ 53))"
    by (simp_all only: incr_stuck)
  from "2.IH" [OF sub [symmetric] uid]
  have tail: "set (returned_values (fst (container_run_calls calls c')))
                \<subseteq> {JNumber (2 ^ 53)}" .
  have eq: "fst (container_run_calls (ContainerSubscribe topic f # calls) c)
              = r # fst (container_run_calls calls c')"
    using sub by (simp split: prod.splits)
  from r tail show ?case
    by (auto simp only: eq returned_values.simps set_simps insert_subset)
next
  case (3 topic n calls c)
  from "3.prems" have "id_var (snd (container_unsubscribe topic n c)) = 2 ^ 53"
    by (simp only: container_unsubscribe_counter)
  from "3.IH" [OF this] show ?case
    by (simp only: container_run_calls.simps)
qed

text \<open>
  Claim C3, as the code has it: a token is the next value of a counter, and the
  counter is a double that starts at -1 on a \<open>pubsub\<close> broker and at 0 on a
  container and only grows. For every sequence of \<open>subscribe\<close> calls on one broker,
  with any \<open>unsubscribe\<close> calls in between, during which the counter stays within
  \<open>2 ^ 53\<close> (at most \<open>2 ^ 53 + 1\<close> \<open>subscribe\<close> calls on a new \<open>pubsub\<close> broker, at most
  \<open>2 ^ 53\<close> on a new container), the tokens returned are pairwise distinct,
  whatever the topics. Once the counter has reached \<open>2 ^ 53\<close> it no longer
  advances, and every further \<open>subscribe\<close> that returns a token returns the same
  one. A call that fails with a \<open>TypeError\<close> returns no token.
\<close>

theorem subscribe_tokens_distinct:
  "(- 1 \<le> subUid st \<longrightarrow>
    subUid st + int (length (filter is_subscribe calls)) \<le> 2 ^ 53 \<longrightarrow>
      distinct (returned_values (fst (run_calls calls st))))
   \<and> (0 \<le> id_var c \<longrightarrow>
      id_var c + int (length (filter is_container_subscribe ccalls)) \<le> 2 ^ 53 \<longrightarrow>
      distinct (returned_values (fst (container_run_calls ccalls c))))
   \<and> (subUid full = 2 ^ 53 \<longrightarrow>
      set (returned_values (fst (run_calls later full))) \<subseteq> {JString (toString (2 ^ 53))})
   \<and> (id_var cfull = 2 ^ 53 \<longrightarrow>
      set (returned_values (fst (container_run_calls clater cfull))) \<subseteq> {JNumber (2 ^ 53)})"
  using run_calls_tokens [of st calls] container_run_calls_ids [of c ccalls]
    run_calls_stuck [of full later] container_run_calls_stuck [of cfull clater]
  by blast

theorem subscribe_tokens_distinct_witness:
  "returned_values (fst (run_calls
       [Subscribe ''clicks'' (1 :: nat), Subscribe ''keys'' 2, Unsubscribe ''0'',
        Subscribe ''toString'' 3, Subscribe ''clicks'' 4] pubsub_init))
     = [JString ''0'', JString ''1'', JString ''3'']
   \<and> returned_values (fst (container_run_calls
       [ContainerSubscribe ''mouseClicked'' (1 :: nat), ContainerSubscribe ''mouseHovered'' 2,
        ContainerUnsubscribe ''mouseClicked'' 1, ContainerSubscribe ''mouseClicked'' 3]
       container_init))
     = [JNumber 1, JNumber 2, JNumber 3]
   \<and> returned_values (fst (run_calls
       [Subscribe ''clicks'' (1 :: nat), Unsubscribe ''9007199254740992'', Subscribe ''keys'' 2]
       \<lparr>topics = [], subUid = 2 ^ 53\<rparr>))
     = [JString ''9007199254740992'', JString ''9007199254740992'']
   \<and> returned_values (fst (container_run_calls
       [ContainerSubscribe ''mouseClicked'' (1 :: nat),
        ContainerUnsubscribe ''mouseClicked'' (2 ^ 53), ContainerSubscribe ''mouseHovered'' 2]
       \<lparr>topic_arrays = [], id_var = 2 ^ 53\<rparr>))
     = [JNumber 9007199254740992, JNumber 9007199254740992]"
proof -
  have a: "returned_values (fst (run_calls
       [Subscribe ''clicks'' (1 :: nat), Subscribe ''keys'' 2, Unsubscribe ''0'',
        Subscribe ''toString'' 3, Subscribe ''clicks'' 4] pubsub_init))
     = [JString ''0'', JString ''1'', JString ''3'']"
    by (simp add: pubsub_eval)
  have b: "returned_values (fst (container_run_calls
       [ContainerSubscribe ''mouseClicked'' (1 :: nat), ContainerSubscribe ''mouseHovered'' 2,
        ContainerUnsubscribe ''mouseClicked'' 1, ContainerSubscribe ''mouseClicked'' 3]
       container_init))
     = [JNumber 1, JNumber 2, JNumber 3]"
    by (simp add: container_eval container_unsubscribe_def)
  have c: "returned_values (fst (run_calls
       [Subscribe ''clicks'' (1 :: nat), Unsubscribe ''9007199254740992'', Subscribe ''keys'' 2]
       \<lparr>topics = [], subUid = 2 ^ 53\<rparr>))
     = [JString ''9007199254740992'', JString ''9007199254740992'']"
    by (simp add: pubsub_eval)
  have d: "returned_values (fst (container_run_calls
       [ContainerSubscribe ''mouseClicked'' (1 :: nat),
        ContainerUnsubscribe ''mouseClicked'' (2 ^ 53), ContainerSubscribe ''mouseHovered'' 2]
       \<lparr>topic_arrays = [], id_var = 2 ^ 53\<rparr>))
     = [JNumber 9007199254740992, JNumber 9007199254740992]"
    by (simp add: container_eval container_unsubscribe_def)
  have "- 1 \<le> subUid (pubsub_init :: nat pubsub)"
    and "subUid (pubsub_init :: nat pubsub)
          + int (length (filter is_subscribe
              [Subscribe ''clicks'' (1 :: nat), Subscribe ''keys'' 2, Unsubscribe ''0'',
               Subscribe ''toString'' 3, Subscribe ''clicks'' 4])) \<le> 2 ^ 53"
    by (simp_all add: pubsub_init_def)
  from subscribe_tokens_distinct [THEN conjunct1, THEN mp, THEN mp, OF this]
  have "distinct (returned_values (fst (run_calls
       [Subscribe ''clicks'' (1 :: nat), Subscribe ''keys'' 2, Unsubscribe ''0'',
        Subscribe ''toString'' 3, Subscribe ''clicks'' 4] pubsub_init)))" .
  with a b c d show ?thesis by blast
qed

lemma map_of_create_property:
  "map_of al k = None \<Longrightarrow> map_of (create_property k v al) = (map_of al)(k \<mapsto> v)"
proof (induction al)
  case Nil
  show ?case by simp
next
  case (Cons p al)
  obtain k' v' where p: "p = (k', v')" by (cases p)
  with Cons.prems have "k' \<noteq> k" and "map_of al k = None"
    by (auto split: if_splits)
  with Cons.IH p show ?case
    by (auto simp: fun_upd_twist)
qed

lemma subscribe_ordinary_topic:
  assumes "map_of object_prototype topic = None"
  shows "\<exists>st'. pubsub_subscribe topic f st
                 = (Inr (JString (toString (incr (subUid st)))), st')
               \<and> subUid st' = incr (subUid st)"
proof (cases "map_of (topics st) topic")
  case None
  with assms show ?thesis
    by (simp add: pubsub_subscribe_def Let_def lookup_def map_of_create_property)
next
  case (Some l)
  then show ?thesis
    by (simp add: pubsub_subscribe_def Let_def lookup_def)
qed

lemma incr_min: "incr (min (int j - 1) (2 ^ 53)) = min (int j) (2 ^ 53)"
  by (simp add: incr_def min_def)

lemma churn_tokens:
  assumes "map_of object_prototype topic = None"
  shows "subUid st = min (int j - 1) (2 ^ 53) \<Longrightarrow>
         returned_values (fst (run_calls (churn topic f j n) st))
           = map (\<lambda>k. JString (toString (min (int k) (2 ^ 53)))) [j..<j + n]"
proof (induction n arbitrary: j st)
  case 0
  show ?case by (simp add: churn_def)
next
  case (Suc n)
  from subscribe_ordinary_topic [OF assms, of f st] obtain st'
    where sub0: "pubsub_subscribe topic f st
                   = (Inr (JString (toString (incr (subUid st)))), st')"
      and uid0: "subUid st' = incr (subUid st)"
    by blast
  have inc: "incr (subUid st) = min (int j) (2 ^ 53)"
    unfolding Suc.prems by (rule incr_min)
  from sub0 uid0 have sub: "pubsub_subscribe topic f st
                  = (Inr (JString (toString (min (int j) (2 ^ 53)))), st')"
      and uid: "subUid st' = min (int j) (2 ^ 53)"
    by (simp_all only: inc)
  let ?st'' = "snd (pubsub_unsubscribe (toString (min (int j) (2 ^ 53))) st')"
  from uid have "subUid ?st'' = min (int (Suc j) - 1) (2 ^ 53)"
    by (simp add: unsubscribe_counter)
  from Suc.IH [OF this]
  have rest: "returned_values (fst (run_calls (churn topic f (Suc j) n) ?st''))
           = map (\<lambda>k. JString (toString (min (int k) (2 ^ 53)))) [Suc j..<Suc j + n]" .
  have upt: "[j..<j + Suc n] = j # [Suc j..<Suc j + n]"
    by (simp add: upt_conv_Cons del: upt_Suc)
  have "churn topic f j (Suc n)
          = Subscribe topic f # Unsubscribe (toString (min (int j) (2 ^ 53)))
              # churn topic f (Suc j) n"
    by (simp only: churn_def upt list.map concat.simps append.simps)
  with sub rest upt show ?case
    by (simp add: case_prod_beta del: upt_Suc)
qed

lemma churn_tokens_repeat:
  assumes "map_of object_prototype topic = None" and "2 ^ 53 + 2 \<le> n"
  shows "\<not> distinct (returned_values (fst (run_calls (churn topic f 0 n) pubsub_init)))"
proof -
  let ?toks = "returned_values (fst (run_calls (churn topic f 0 n) pubsub_init))"
  let ?i = "2 ^ 53 :: nat"
  have "subUid (pubsub_init :: 'a pubsub) = min (int 0 - 1) (2 ^ 53)"
    by (simp add: pubsub_init_def)
  from churn_tokens [OF assms(1) this, of f n]
  have toks: "?toks = map (\<lambda>k. JString (toString (min (int k) (2 ^ 53)))) [0..<n]"
    by simp
  from assms(2) have i: "?i < n" "Suc ?i < n" by simp_all
  have "?toks ! ?i = JString (toString (2 ^ 53))"
    using i(1) by (simp only: toks nth_map length_upt nth_upt) simp
  moreover have "?toks ! Suc ?i = JString (toString (2 ^ 53))"
    using i(2) by (simp only: toks nth_map length_upt nth_upt) simp
  moreover have "length ?toks = n"
    by (simp only: toks length_map length_upt minus_nat.diff_0)
  ultimately show ?thesis
    using i by (metis distinct_conv_nth n_not_Suc_n)
qed

text \<open>
  On a new broker, a client subscribes and unsubscribes again, \<open>2 ^ 53 + 2\<close> times:
  the subscriptions number \<open>2 ^ 53 + 1\<close> and \<open>2 ^ 53 + 2\<close> both receive the token
  \<open>9007199254740992\<close>, because the counter has stopped advancing.
\<close>

theorem subscribe_tokens_distinct_counterexample:
  "\<not> distinct (returned_values (fst (run_calls
        (churn ''inbox/newMessage'' (0 :: nat) 0 (2 ^ 53 + 2)) pubsub_init)))"
  by (rule churn_tokens_repeat) (simp_all add: object_prototype_def)

end
